theory Spec2Isabelle
  imports Main "HOL-Library.Word" "HOL-Library.Multiset"
begin

section \<open>The alarm list of alarm\_mutex2.c\<close>

text \<open>
  The program keeps one global singly linked list \<open>alarm_list\<close> of \<open>alarm_t\<close>
  nodes, guarded by \<open>alarm_mutex\<close>. The main thread reads commands and links new
  nodes into the list in order of their absolute expiration time; the alarm thread
  unlinks the first node of the list in each iteration of its loop.

  Machine types are those of an LP64 platform: \<open>int\<close> is a 32-bit word and
  \<open>time_t\<close> a 64-bit word, both read as two's complement (\<open>sint\<close>) where the
  source compares them.

  The file holds \<open>alarm_thread\<close> (lines 34-87) and \<open>main\<close> (lines 90-157). A
  second, partial copy of \<open>main\<close> follows (lines 159-189): it repeats the end of
  the insertion and, unlike the first, checks the result of \<open>pthread_mutex_unlock\<close>.
  The model is that of the first, complete \<open>main\<close>.
\<close>

type_synonym c_int = "32 word"
type_synonym time_t = "64 word"

text \<open>
  \<open>struct alarm_tag\<close> (lines 24-29). The \<open>link\<close> field is the list structure
  itself: the chain of nodes reachable from \<open>alarm_list\<close> is an \<open>alarm_t list\<close>,
  \<open>NULL\<close> is \<open>[]\<close>. \<open>message\<close> is the characters that the array
  \<open>char message[64]\<close> holds before a terminating NUL, or all the 64 characters of
  the array when it holds no NUL. The array has room for \<open>message_size\<close> bytes.
\<close>

definition message_size :: nat where
  "message_size = 64"

record alarm_t =
  seconds :: c_int
  time :: time_t
  message :: string

subsection \<open>Insertion by the main thread (lines 131-151)\<close>

text \<open>
  The loop of lines 132-144 walks the list with two cursors: \<open>last\<close> points at
  the link field that leads to \<open>next\<close>. In \<open>insert_loop alarm visited rest\<close>,
  \<open>visited\<close> are the nodes before \<open>*last\<close> (already passed) and \<open>rest\<close>
  is the chain starting at \<open>next\<close>. The comparison \<open>next->time >= alarm->time\<close>
  is a signed comparison of two \<open>time_t\<close>. When \<open>next\<close> becomes \<open>NULL\<close>
  the node is linked at the end (lines 147-151).
\<close>

fun insert_loop :: "alarm_t \<Rightarrow> alarm_t list \<Rightarrow> alarm_t list \<Rightarrow> alarm_t list" where
  "insert_loop alarm visited [] = visited @ [alarm]"
| "insert_loop alarm visited (next # rest) =
     (if time alarm \<le>s time next then visited @ alarm # next # rest
      else insert_loop alarm (visited @ [next]) rest)"

definition insert_alarm :: "alarm_t \<Rightarrow> alarm_t list \<Rightarrow> alarm_t list" where
  "insert_alarm alarm alarm_list = insert_loop alarm [] alarm_list"

text \<open>The list is ordered when the expiration times, read as signed, ascend.\<close>

definition ordered :: "alarm_t list \<Rightarrow> bool" where
  "ordered alarm_list = sorted (map (\<lambda>a. sint (time a)) alarm_list)"

subsection \<open>Process termination\<close>

text \<open>
  Modelled from the spec: \<open>errors.h\<close> is not among the sources. Its macros
  \<open>err_abort (status, text)\<close> and \<open>errno_abort (text)\<close> print a diagnostic that
  identifies the failed operation and abort the process; the value records the arguments
  of the call. \<open>Exit\<close> is the call \<open>exit (0)\<close> of line 105.
\<close>

datatype stop =
  Exit c_int
| Err_abort c_int string
| Errno_abort string

subsection \<open>The alarm thread (lines 34-87)\<close>

text \<open>
  What one iteration of the thread's loop does after it has released the mutex, in
  order. \<open>sleep\<close> takes the (positive) \<open>int\<close> it is called with. Line 82 is
  \<open>printf ()\<close>, without arguments.
\<close>

datatype action =
  Sleep c_int
| Sched_yield
| Printf
| Free alarm_t

text \<open>
  The thread's variables that are written under the lock. \<open>sleep_time\<close> is declared at
  line 37, outside the loop, so it keeps its value from one iteration to the next.
  \<open>sleet_time\<close> is the identifier that line 54 assigns to; it is a name of its own,
  different from \<open>sleep_time\<close>, and nothing reads it.
\<close>

record thread_vars =
  sleep_time :: c_int
  sleet_time :: c_int

text \<open>
  Lines 46-63, executed while the mutex is held. \<open>t\<close> is the value that
  \<open>time (NULL)\<close> returns at line 58. The result is the local \<open>alarm\<close>
  (\<open>None\<close> for \<open>NULL\<close>), the variables and the new \<open>alarm_list\<close>.
  Line 62 computes \<open>now - alarm->time\<close> in \<open>time_t\<close> and stores it in an
  \<open>int\<close>, which keeps the low 32 bits.
\<close>

definition alarm_thread_locked ::
    "time_t \<Rightarrow> thread_vars \<Rightarrow> alarm_t list \<Rightarrow> alarm_t option \<times> thread_vars \<times> alarm_t list" where
  "alarm_thread_locked t vars alarm_list =
     (case alarm_list of
        [] \<Rightarrow> (None, vars\<lparr>sleet_time := 1\<rparr>, [])
      | alarm # link \<Rightarrow>
          (Some alarm,
           vars\<lparr>sleep_time := (if time alarm \<le>s t then 0 else ucast (t - time alarm))\<rparr>,
           link))"

text \<open>Lines 74-84: wait or yield, then print and free the alarm that was removed.\<close>

definition alarm_thread_unlocked :: "alarm_t option \<Rightarrow> thread_vars \<Rightarrow> action list" where
  "alarm_thread_unlocked alarm vars =
     (if 0 <s sleep_time vars then [Sleep (sleep_time vars)] else [Sched_yield])
     @ (case alarm of None \<Rightarrow> [] | Some a \<Rightarrow> [Printf, Free a])"

text \<open>
  One iteration of the loop of line 41. \<open>lock_status\<close> and \<open>unlock_status\<close>
  are what \<open>pthread_mutex_lock\<close> (line 43) and \<open>pthread_mutex_unlock\<close> (line 70)
  return.
\<close>

definition alarm_thread_iter ::
    "c_int \<Rightarrow> c_int \<Rightarrow> time_t \<Rightarrow> thread_vars \<Rightarrow> alarm_t list
       \<Rightarrow> stop + (action list \<times> thread_vars \<times> alarm_t list)" where
  "alarm_thread_iter lock_status unlock_status t vars alarm_list =
     (if lock_status \<noteq> 0 then Inl (Err_abort lock_status ''Lock mutex'')
      else
        (case alarm_thread_locked t vars alarm_list of
           (alarm, vars', alarm_list') \<Rightarrow>
             if unlock_status \<noteq> 0 then Inl (Err_abort unlock_status ''unlock mutex'')
             else Inr (alarm_thread_unlocked alarm vars', vars', alarm_list')))"

subsection \<open>Parsing a command (line 118)\<close>

text \<open>
  \<open>sscanf (line, "%d %64[^\n]", &alarm->seconds, alarm->message)\<close>, by the rules of
  the C standard for \<open>fscanf\<close>. The characters are those of the "C" locale.
\<close>

definition newline :: char where
  "newline = CHR 0x0A"

definition isspace :: "char \<Rightarrow> bool" where
  "isspace c = (c = CHR '' '' \<or> c = CHR 0x09 \<or> c = CHR 0x0A \<or> c = CHR 0x0B
                \<or> c = CHR 0x0C \<or> c = CHR 0x0D)"

definition isdigit :: "char \<Rightarrow> bool" where
  "isdigit c = (48 \<le> (of_char c :: nat) \<and> (of_char c :: nat) \<le> 57)"

text \<open>The value of a run of decimal digits.\<close>

definition decimal :: "string \<Rightarrow> int" where
  "decimal ds = foldl (\<lambda>v c. 10 * v + (of_char c - 48)) 0 ds"

text \<open>
  The conversion \<open>%d\<close> on the input that is left after white space has been skipped:
  an optional sign and the longest run of digits. \<open>None\<close> is a matching failure (no
  digit). The result is the number that the characters denote and the input that
  remains.
\<close>

definition scan_d :: "string \<Rightarrow> (int \<times> string) option" where
  "scan_d s =
     (let (neg, s') = (case s of
                         [] \<Rightarrow> (False, s)
                       | c # r \<Rightarrow> if c = CHR ''-'' then (True, r)
                                  else if c = CHR ''+'' then (False, r)
                                  else (False, s));
          ds = takeWhile isdigit s'
      in if ds = [] then None
         else Some (if neg then - decimal ds else decimal ds, dropWhile isdigit s'))"

text \<open>
  What \<open>%d\<close> stores in the \<open>int\<close> for the number \<open>v\<close>. The C standard defines
  it when \<open>v\<close> fits an \<open>int\<close>; beyond that the model is the GNU C library's: the
  digits are converted as by \<open>strtol\<close>, which stops at \<open>LONG_MIN\<close> and
  \<open>LONG_MAX\<close> (64 bits), and the \<open>long\<close> is converted to \<open>int\<close>, which keeps
  its low 32 bits.
\<close>

definition stored_int :: "int \<Rightarrow> c_int" where
  "stored_int v = word_of_int (max (- (2 ^ 63)) (min (2 ^ 63 - 1) v))"

text \<open>
  The conversion \<open>%64[^\n]\<close>, storing at \<open>alarm->message\<close>. It matches at most 64
  characters, up to the first newline, and fails when there is none. It stores the
  characters matched and then a terminating NUL, from \<open>message[0]\<close> on: up to 65
  bytes. The array has \<open>message_size\<close> bytes: the result is the node with the
  characters that lie in the array, and the bytes that are stored past the end of the
  array (the NUL at \<open>message[64]\<close>, when 64 characters are matched). \<open>message\<close> is
  the last field of the structure, so these bytes lie outside the node.
\<close>

definition scan_set64 :: "string \<Rightarrow> alarm_t \<Rightarrow> (alarm_t \<times> string) option" where
  "scan_set64 s alarm =
     (let m = take 64 (takeWhile (\<lambda>c. c \<noteq> newline) s)
      in if m = [] then None
         else Some (alarm\<lparr>message := take message_size m\<rparr>,
                    drop message_size (m @ [CHR 0x00])))"

text \<open>
  The call of line 118, on the node \<open>alarm\<close> that \<open>malloc\<close> has returned: the
  value \<open>sscanf\<close> returns (\<open>EOF\<close> is \<open>-1\<close>), the node with what has been
  stored in \<open>alarm->seconds\<close> and \<open>alarm->message\<close>, and the bytes stored past
  the end of \<open>alarm->message\<close>. The directive of white space between the two
  conversions skips any white space, also none.
\<close>

definition sscanf_alarm :: "string \<Rightarrow> alarm_t \<Rightarrow> int \<times> alarm_t \<times> string" where
  "sscanf_alarm line alarm =
     (let s1 = dropWhile isspace line
      in if s1 = [] then (- 1, alarm, [])
         else
           (case scan_d s1 of
              None \<Rightarrow> (0, alarm, [])
            | Some (v, s2) \<Rightarrow>
                (case scan_set64 (dropWhile isspace s2) (alarm\<lparr>seconds := stored_int v\<rparr>) of
                   None \<Rightarrow> (1, alarm\<lparr>seconds := stored_int v\<rparr>, [])
                 | Some (alarm', past) \<Rightarrow> (2, alarm', past))))"

subsection \<open>The main thread (lines 101-156)\<close>

text \<open>
  What an iteration of the main thread does to the world outside the list: what it
  prints, and the bytes that line 118 stores past the end of \<open>alarm->message\<close>.
\<close>

datatype effect =
  Stdout string
| Stderr string
| Write_past_message string

definition past_message :: "string \<Rightarrow> effect list" where
  "past_message past = (if past = [] then [] else [Write_past_message past])"

text \<open>
  One iteration of the loop of line 101. \<open>fgets_result\<close> is the string that
  \<open>fgets\<close> has left in \<open>line\<close> (\<open>None\<close> when it returns \<open>NULL\<close>);
  \<open>malloc_result\<close> is the node that \<open>malloc\<close> returns, with whatever its fields
  hold (\<open>None\<close> for \<open>NULL\<close>); \<open>lock_status\<close> and \<open>unlock_status\<close> are what
  \<open>pthread_mutex_lock\<close> (line 125) and \<open>pthread_mutex_unlock\<close> (line 153)
  return; \<open>t\<close> is the value of \<open>time (NULL)\<close> at line 129, to which
  \<open>alarm->seconds\<close> is added as a \<open>time_t\<close>. The result is the effects of the
  iteration, in order, and either the reason why the process stops or the
  \<open>alarm_list\<close> with which the loop goes on. A write past the end of the message
  is recorded, and the iteration goes on as the code does; what the bytes behind the
  node are used for is outside the model. Line 153 does not look at the value that
  \<open>pthread_mutex_unlock\<close> returns.
\<close>

definition main_iter ::
    "string option \<Rightarrow> alarm_t option \<Rightarrow> c_int \<Rightarrow> c_int \<Rightarrow> time_t \<Rightarrow> alarm_t list
       \<Rightarrow> effect list \<times> (stop + alarm_t list)" where
  "main_iter fgets_result malloc_result lock_status unlock_status t alarm_list =
     (case fgets_result of
        None \<Rightarrow> ([Stdout ''alarm> ''], Inl (Exit 0))
      | Some line \<Rightarrow>
          if length line \<le> 1 then ([Stdout ''alarm> ''], Inr alarm_list)
          else
            (case malloc_result of
               None \<Rightarrow> ([Stdout ''alarm> ''], Inl (Errno_abort ''allocate alarm''))
             | Some node \<Rightarrow>
                 (case sscanf_alarm line node of
                    (n, alarm, past) \<Rightarrow>
                      if n < 2
                      then ([Stdout ''alarm> ''] @ past_message past
                              @ [Stderr (''bad command'' @ [newline])],
                            Inr alarm_list)
                      else if lock_status \<noteq> 0
                      then ([Stdout ''alarm> ''] @ past_message past,
                            Inl (Err_abort lock_status ''failed to lock mutex''))
                      else ([Stdout ''alarm> ''] @ past_message past,
                            Inr (insert_alarm
                                   (alarm\<lparr>time := t + scast (seconds alarm)\<rparr>)
                                   alarm_list)))))"

subsection \<open>The list in memory\<close>

text \<open>
  The functions above work on the list of the nodes. This is the same code on the
  nodes in memory, with their addresses: \<open>list_head\<close> is the global pointer
  \<open>alarm_list\<close> (line 32), \<open>links\<close> gives the \<open>link\<close> field of the node at
  each address and \<open>alarms\<close> its other fields; \<open>None\<close> is \<open>NULL\<close>.
\<close>

type_synonym addr = nat

record heap =
  list_head :: "addr option"
  links :: "addr \<Rightarrow> addr option"
  alarms :: "addr \<Rightarrow> alarm_t"

text \<open>
  What the cursor \<open>last\<close> of \<open>main\<close> points at: the global pointer
  (\<open>&alarm_list\<close>, line 132) or the link field of a node (\<open>&next->link\<close>, line
  142). \<open>load\<close> is \<open>*last\<close> read, \<open>store\<close> is \<open>*last\<close> written.
\<close>

datatype place = List_head | Link_of addr

definition load :: "heap \<Rightarrow> place \<Rightarrow> addr option" where
  "load h pl = (case pl of List_head \<Rightarrow> list_head h | Link_of p \<Rightarrow> links h p)"

definition store :: "place \<Rightarrow> addr option \<Rightarrow> heap \<Rightarrow> heap" where
  "store pl v h =
     (case pl of
        List_head \<Rightarrow> h\<lparr>list_head := v\<rparr>
      | Link_of p \<Rightarrow> h\<lparr>links := (links h)(p := v)\<rparr>)"

text \<open>
  The loop of lines 134-144 and the block of lines 147-151, for the node at address
  \<open>alarm\<close>. When the node is linked before \<open>next\<close> the loop is left with
  \<open>next\<close> not \<open>NULL\<close>, so lines 147-151 do nothing; when \<open>next\<close> is
  \<open>NULL\<close> they link the node at the end. Nothing in the loop bounds the number of
  its iterations (on links that form a cycle it may go on for ever), so the result is an
  option: \<open>None\<close> when the loop does not end.
\<close>

partial_function (option)
  insert_scan :: "addr \<Rightarrow> place \<Rightarrow> addr option \<Rightarrow> heap \<Rightarrow> heap option" where
  "insert_scan alarm last' next h =
     (case next of
        None \<Rightarrow> Some (store (Link_of alarm) None (store last' (Some alarm) h))
      | Some n \<Rightarrow>
          if time (alarms h alarm) \<le>s time (alarms h n)
          then Some (store last' (Some alarm) (store (Link_of alarm) (Some n) h))
          else insert_scan alarm (Link_of n) (links h n) h)"

text \<open>Lines 132-151: \<open>last = &alarm_list; next = *last;\<close> and the loop.\<close>

definition insert_heap :: "addr \<Rightarrow> heap \<Rightarrow> heap option" where
  "insert_heap alarm h = insert_scan alarm List_head (list_head h) h"

text \<open>Lines 46 and 57 of the alarm thread: \<open>alarm = alarm_list; alarm_list = alarm->link\<close>.\<close>

definition remove_heap :: "heap \<Rightarrow> addr option \<times> heap" where
  "remove_heap h =
     (case list_head h of
        None \<Rightarrow> (None, h)
      | Some alarm \<Rightarrow> (Some alarm, h\<lparr>list_head := links h alarm\<rparr>))"

text \<open>
  \<open>chain h p ps\<close>: following the links from the pointer \<open>p\<close> one passes the nodes
  at the addresses \<open>ps\<close>, in this order, and then reaches \<open>NULL\<close>. \<open>queue h ps\<close>
  is the list of these nodes.
\<close>

fun chain :: "heap \<Rightarrow> addr option \<Rightarrow> addr list \<Rightarrow> bool" where
  "chain h p [] = (p = None)"
| "chain h p (x # xs) = (p = Some x \<and> chain h (links h x) xs)"

definition queue :: "heap \<Rightarrow> addr list \<Rightarrow> alarm_t list" where
  "queue h ps = map (alarms h) ps"

section \<open>Properties of the insertion\<close>

lemma insert_loop_split:
  "insert_loop alarm visited rest =
     visited @ takeWhile (\<lambda>x. time x <s time alarm) rest
       @ alarm # dropWhile (\<lambda>x. time x <s time alarm) rest"
  by (induction rest arbitrary: visited) (auto simp: word_sless_alt word_sle_eq)

lemma insert_alarm_split:
  "insert_alarm alarm alarm_list =
     takeWhile (\<lambda>x. time x <s time alarm) alarm_list
       @ alarm # dropWhile (\<lambda>x. time x <s time alarm) alarm_list"
  by (simp add: insert_alarm_def insert_loop_split)

lemma mset_insert_alarm:
  "mset (insert_alarm alarm alarm_list) = add_mset alarm (mset alarm_list)"
proof -
  have "mset (takeWhile (\<lambda>x. time x <s time alarm) alarm_list)
          + mset (dropWhile (\<lambda>x. time x <s time alarm) alarm_list) = mset alarm_list"
    by (simp add: union_code)
  then show ?thesis
    by (simp add: insert_alarm_split)
qed

lemma ordered_insert_alarm:
  assumes "ordered alarm_list"
  shows "ordered (insert_alarm alarm alarm_list)"
  using assms
proof (induction alarm_list)
  case Nil
  show ?case by (simp add: insert_alarm_split ordered_def)
next
  case (Cons n ns)
  then have tl: "ordered (insert_alarm alarm ns)"
    by (simp add: ordered_def)
  show ?case
  proof (cases "time n <s time alarm")
    case True
    have "set (insert_alarm alarm ns) = insert alarm (set ns)"
      using mset_insert_alarm [of alarm ns] by (metis set_mset_add_mset_insert set_mset_mset)
    with True Cons.prems tl show ?thesis
      by (auto simp: insert_alarm_split ordered_def word_sless_alt
               dest: set_takeWhileD set_dropWhileD)
  next
    case False
    with Cons.prems show ?thesis
      by (auto simp: insert_alarm_split ordered_def word_sless_alt)
  qed
qed

lemma ordered_Cons:
  "ordered (alarm # link) \<longleftrightarrow> (\<forall>x \<in> set link. time alarm \<le>s time x) \<and> ordered link"
  by (auto simp: ordered_def word_sle_eq)

section \<open>The list in memory and the list of its nodes\<close>

text \<open>
  On every list in memory that ends with \<open>NULL\<close>, and for a node that is not yet in
  it (\<open>malloc\<close> has just returned it), the loop of \<open>main\<close> ends, and the list it
  leaves in memory is the one that \<open>insert_alarm\<close> computes: the same addresses and
  the new one, no field of a node changed but links. Taking the first node in the alarm
  thread leaves the rest of the list, in which that node no longer occurs.
\<close>

lemma chain_unique: "chain h p xs \<Longrightarrow> chain h p ys \<Longrightarrow> xs = ys"
proof (induction xs arbitrary: p ys)
  case Nil
  then show ?case by (cases ys) auto
next
  case (Cons x xs)
  then show ?case by (cases ys) auto
qed

lemma chain_after:
  "chain h p (ys @ x # zs) \<Longrightarrow> chain h (links h x) zs"
  by (induction ys arbitrary: p) auto

lemma chain_first_not_later:
  assumes "chain h (links h a) ps"
  shows "a \<notin> set ps"
proof
  assume "a \<in> set ps"
  from split_list [OF this] obtain before after where ps: "ps = before @ a # after"
    by blast
  with assms have "chain h (links h a) (before @ a # after)" by simp
  then have "chain h (links h a) after"
    by (rule chain_after)
  with assms have "ps = after" by (rule chain_unique)
  with ps show False by simp
qed

lemma chain_distinct: "chain h p xs \<Longrightarrow> distinct xs"
  by (induction xs arbitrary: p) (auto dest: chain_first_not_later)

lemma chain_frame:
  assumes "\<forall>x \<in> set xs. links h' x = links h x"
  shows "chain h' p xs = chain h p xs"
  using assms by (induction xs arbitrary: p) auto

lemma load_store:
  "load (store pl v h) pl' = (if pl' = pl then v else load h pl')"
  by (auto simp: load_def store_def split: place.splits)

lemma store_frame [simp]:
  "alarms (store pl v h) = alarms h"
  "list_head (store pl v h) = (if pl = List_head then v else list_head h)"
  "links (store pl v h) p = (if pl = Link_of p then v else links h p)"
  by (auto simp: store_def split: place.splits)

lemma insert_scan_chain:
  assumes "chain h next suf"
      and "alarm \<notin> set suf"
      and "\<forall>l. last' = Link_of l \<longrightarrow> l \<notin> set suf \<and> l \<noteq> alarm"
      and "load h last' = next"
  shows "\<exists>h'. insert_scan alarm last' next h = Some h'
           \<and> chain h' (load h' last')
                (takeWhile (\<lambda>p. time (alarms h p) <s time (alarms h alarm)) suf
                 @ alarm # dropWhile (\<lambda>p. time (alarms h p) <s time (alarms h alarm)) suf)
           \<and> alarms h' = alarms h
           \<and> (last' \<noteq> List_head \<longrightarrow> list_head h' = list_head h)
           \<and> (\<forall>p. p \<notin> set suf \<and> p \<noteq> alarm \<and> last' \<noteq> Link_of p \<longrightarrow> links h' p = links h p)"
  using assms
proof (induction suf arbitrary: last' "next")
  case Nil
  then have "next = None" by simp
  then show ?case
    using Nil.prems(3)
    by (subst insert_scan.simps) (auto simp: load_store)
next
  case (Cons n ns)
  from Cons.prems(1) have nx: "next = Some n" and tl: "chain h (links h n) ns"
    by simp_all
  from tl have n_ns: "n \<notin> set ns" by (rule chain_first_not_later)
  from Cons.prems(2) have a_n: "alarm \<noteq> n" and a_ns: "alarm \<notin> set ns" by auto
  show ?case
  proof (cases "time (alarms h alarm) \<le>s time (alarms h n)")
    case True
    then have notless: "\<not> time (alarms h n) <s time (alarms h alarm)"
      by (simp add: word_sless_alt word_sle_eq)
    let ?h' = "store last' (Some alarm) (store (Link_of alarm) (Some n) h)"
    have run: "insert_scan alarm last' next h = Some ?h'"
      using True nx by (subst insert_scan.simps) simp
    have "chain ?h' (links h n) ns = chain h (links h n) ns"
      using Cons.prems(3) a_ns by (intro chain_frame) auto
    with tl have "chain ?h' (links h n) ns" by simp
    moreover have "links ?h' n = links h n"
      using Cons.prems(3) a_n by auto
    ultimately have "chain ?h' (load ?h' last') (alarm # n # ns)"
      using Cons.prems(3) a_n by (auto simp: load_store)
    with run notless show ?thesis
      by auto
  next
    case False
    then have less: "time (alarms h n) <s time (alarms h alarm)"
      by (simp add: word_sless_alt word_sle_eq)
    have run: "insert_scan alarm last' next h = insert_scan alarm (Link_of n) (links h n) h"
      using False nx by (subst insert_scan.simps) simp
    have "\<forall>l. Link_of n = Link_of l \<longrightarrow> l \<notin> set ns \<and> l \<noteq> alarm"
      using n_ns a_n by auto
    moreover have "load h (Link_of n) = links h n"
      by (simp add: load_def)
    ultimately have "\<exists>h'. insert_scan alarm (Link_of n) (links h n) h = Some h'
           \<and> chain h' (load h' (Link_of n))
                (takeWhile (\<lambda>p. time (alarms h p) <s time (alarms h alarm)) ns
                 @ alarm # dropWhile (\<lambda>p. time (alarms h p) <s time (alarms h alarm)) ns)
           \<and> alarms h' = alarms h
           \<and> (Link_of n \<noteq> List_head \<longrightarrow> list_head h' = list_head h)
           \<and> (\<forall>p. p \<notin> set ns \<and> p \<noteq> alarm \<and> Link_of n \<noteq> Link_of p
                  \<longrightarrow> links h' p = links h p)"
      by (rule Cons.IH [OF tl a_ns])
    then
    obtain h' where h': "insert_scan alarm (Link_of n) (links h n) h = Some h'"
      and ch: "chain h' (load h' (Link_of n))
                (takeWhile (\<lambda>p. time (alarms h p) <s time (alarms h alarm)) ns
                 @ alarm # dropWhile (\<lambda>p. time (alarms h p) <s time (alarms h alarm)) ns)"
      and al: "alarms h' = alarms h"
      and hd: "list_head h' = list_head h"
      and fr: "\<forall>p. p \<notin> set ns \<and> p \<noteq> alarm \<and> Link_of n \<noteq> Link_of p \<longrightarrow> links h' p = links h p"
      by auto
    have "load h' last' = load h last'"
      using Cons.prems(3) hd fr by (cases last') (auto simp: load_def)
    with Cons.prems(4) nx have "load h' last' = Some n"
      by simp
    moreover have "load h' (Link_of n) = links h' n"
      by (simp add: load_def)
    ultimately have "chain h' (load h' last')
                (n # takeWhile (\<lambda>p. time (alarms h p) <s time (alarms h alarm)) ns
                 @ alarm # dropWhile (\<lambda>p. time (alarms h p) <s time (alarms h alarm)) ns)"
      using ch by simp
    moreover have "\<forall>p. p \<notin> set (n # ns) \<and> p \<noteq> alarm \<and> last' \<noteq> Link_of p
                     \<longrightarrow> links h' p = links h p"
      using fr by auto
    ultimately show ?thesis
      using run h' al hd less by simp
  qed
qed


lemma insert_heap_refines:
  assumes "chain h (list_head h) ps" and "alarm \<notin> set ps"
  shows "\<exists>h' ps'. insert_heap alarm h = Some h'
           \<and> chain h' (list_head h') ps'
           \<and> queue h' ps' = insert_alarm (alarms h alarm) (queue h ps)
           \<and> mset ps' = add_mset alarm (mset ps)
           \<and> alarms h' = alarms h"
proof -
  let ?P = "\<lambda>p. time (alarms h p) <s time (alarms h alarm)"
  have "\<exists>h'. insert_scan alarm List_head (list_head h) h = Some h'
           \<and> chain h' (load h' List_head) (takeWhile ?P ps @ alarm # dropWhile ?P ps)
           \<and> alarms h' = alarms h
           \<and> (List_head \<noteq> List_head \<longrightarrow> list_head h' = list_head h)
           \<and> (\<forall>p. p \<notin> set ps \<and> p \<noteq> alarm \<and> List_head \<noteq> Link_of p
                  \<longrightarrow> links h' p = links h p)"
    using assms by (intro insert_scan_chain) (simp_all add: load_def)
  then obtain h' where run: "insert_heap alarm h = Some h'"
    and ch: "chain h' (list_head h') (takeWhile ?P ps @ alarm # dropWhile ?P ps)"
    and al: "alarms h' = alarms h"
    by (auto simp: insert_heap_def load_def)
  have "map (alarms h) (takeWhile ?P ps @ alarm # dropWhile ?P ps)
        = insert_alarm (alarms h alarm) (map (alarms h) ps)"
    by (simp add: insert_alarm_split takeWhile_map dropWhile_map comp_def)
  moreover have "mset (takeWhile ?P ps @ alarm # dropWhile ?P ps) = add_mset alarm (mset ps)"
  proof -
    have "mset (takeWhile ?P ps) + mset (dropWhile ?P ps) = mset ps"
      by (simp add: union_code)
    then show ?thesis by simp
  qed
  ultimately show ?thesis
    using run ch al by (auto simp: queue_def)
qed

lemma remove_heap_refines:
  assumes "chain h (list_head h) (p # ps)"
  shows "remove_heap h = (Some p, h\<lparr>list_head := links h p\<rparr>)
         \<and> chain (h\<lparr>list_head := links h p\<rparr>) (links h p) ps
         \<and> p \<notin> set ps
         \<and> alarm_thread_locked t vars (queue h (p # ps))
             = (Some (alarms h p),
                vars\<lparr>sleep_time := (if time (alarms h p) \<le>s t then 0
                                      else ucast (t - time (alarms h p)))\<rparr>,
                queue (h\<lparr>list_head := links h p\<rparr>) ps)"
proof -
  from assms have hd: "list_head h = Some p" and tl: "chain h (links h p) ps"
    by simp_all
  from tl have "p \<notin> set ps" by (rule chain_first_not_later)
  moreover have "chain (h\<lparr>list_head := links h p\<rparr>) (links h p) ps = chain h (links h p) ps"
    by (intro chain_frame) simp
  ultimately show ?thesis
    using hd tl by (simp add: remove_heap_def queue_def alarm_thread_locked_def)
qed

lemma remove_heap_empty:
  assumes "chain h (list_head h) []"
  shows "remove_heap h = (None, h)"
  using assms by (simp add: remove_heap_def)

section \<open>Expiration times and waits as signed numbers\<close>

lemma sint_scast_seconds: "sint (scast (s :: c_int) :: time_t) = sint s"
  by (simp add: sint_up_scast is_up)

lemma sint_expiration:
  fixes t :: time_t and s :: c_int
  assumes "- (2 ^ 63) \<le> sint t + sint s" and "sint t + sint s < 2 ^ 63"
  shows "sint (t + scast s) = sint t + sint s"
  using assms
  by (simp add: sint_word_add sint_scast_seconds signed_take_bit_int_eq_self)

lemma sint_ucast_diff:
  fixes t d :: time_t
  assumes "t <s d" and "sint d - sint t \<le> 2 ^ 31"
  shows "sint (ucast (t - d) :: c_int) = sint t - sint d"
proof -
  from assms have bounds: "- (2 ^ 31) \<le> sint t - sint d" "sint t - sint d < 0"
    by (simp_all add: word_sless_alt)
  have down: "is_down (ucast :: time_t \<Rightarrow> c_int)"
    by (simp add: is_down)
  have "sint (t - d) = sint t - sint d"
    using bounds by (simp add: sint_word_diff signed_take_bit_int_eq_self)
  moreover have "(ucast (t - d) :: c_int) = scast (t - d)"
    by (rule fun_cong [OF down_cast_same [OF down]])
  ultimately have eq: "(ucast (t - d) :: c_int) = word_of_int (sint t - sint d)"
    by (simp only: scast_eq)
  have "signed_take_bit (LENGTH(32) - 1) (sint t - sint d) = sint t - sint d"
    using bounds by (intro signed_take_bit_int_eq_self) simp_all
  then show ?thesis
    by (simp only: eq sint_sbintrunc')
qed

section \<open>Properties of the alarm thread\<close>

lemma alarm_thread_locked_empty:
  "alarm_thread_locked t vars [] = (None, vars\<lparr>sleet_time := 1\<rparr>, [])"
  by (simp add: alarm_thread_locked_def)

lemma alarm_thread_iter_empty:
  "alarm_thread_iter 0 0 t vars [] =
     Inr (if 0 <s sleep_time vars then [Sleep (sleep_time vars)] else [Sched_yield],
          vars\<lparr>sleet_time := 1\<rparr>, [])"
  by (simp add: alarm_thread_iter_def alarm_thread_locked_def alarm_thread_unlocked_def)

lemma alarm_thread_locked_due:
  "time alarm \<le>s t \<Longrightarrow>
   alarm_thread_locked t vars (alarm # link) = (Some alarm, vars\<lparr>sleep_time := 0\<rparr>, link)"
  by (simp add: alarm_thread_locked_def)

lemma alarm_thread_lock_checked:
  "lock_status \<noteq> 0 \<Longrightarrow>
   alarm_thread_iter lock_status unlock_status t vars alarm_list
     = Inl (Err_abort lock_status ''Lock mutex'')"
  by (simp add: alarm_thread_iter_def)

lemma alarm_thread_unlock_checked:
  "unlock_status \<noteq> 0 \<Longrightarrow>
   alarm_thread_iter 0 unlock_status t vars alarm_list
     = Inl (Err_abort unlock_status ''unlock mutex'')"
  by (simp add: alarm_thread_iter_def split: prod.splits)

lemma alarm_thread_iter_not_due:
  assumes "t <s time alarm" and "sint (time alarm) - sint t \<le> 2 ^ 31"
  shows "sint (ucast (t - time alarm) :: c_int) = - (sint (time alarm) - sint t)
         \<and> alarm_thread_iter 0 0 t vars (alarm # link)
             = Inr ([Sched_yield, Printf, Free alarm],
                    vars\<lparr>sleep_time := ucast (t - time alarm)\<rparr>, link)"
proof -
  have neg: "sint (ucast (t - time alarm) :: c_int) = sint t - sint (time alarm)"
    using assms by (rule sint_ucast_diff)
  moreover have "\<not> time alarm \<le>s t"
    using assms(1) by (simp add: word_sless_alt word_sle_eq)
  moreover have "\<not> 0 <s (ucast (t - time alarm) :: c_int)"
    using assms(1) neg by (simp add: word_sless_alt)
  ultimately show ?thesis
    by (simp add: alarm_thread_iter_def alarm_thread_locked_def alarm_thread_unlocked_def)
qed

text \<open>An iteration of the alarm thread leaves an ordered list ordered.\<close>

lemma alarm_thread_iter_ordered:
  assumes "ordered alarm_list"
      and "alarm_thread_iter lock_status unlock_status t vars alarm_list
           = Inr (acts, vars', alarm_list')"
  shows "ordered alarm_list'"
proof (cases alarm_list)
  case Nil
  with assms(2) show ?thesis
    by (auto simp: alarm_thread_iter_def alarm_thread_locked_def ordered_def
             split: if_splits)
next
  case (Cons a link)
  with assms(1) have "ordered link"
    by (simp add: ordered_Cons)
  with assms(2) Cons show ?thesis
    by (auto simp: alarm_thread_iter_def alarm_thread_locked_def split: if_splits)
qed

section \<open>Properties of the main thread\<close>

lemma scan_d_Nil: "scan_d [] = None"
  by (simp add: scan_d_def)

lemma stored_int_in_range:
  assumes "- (2 ^ 31) \<le> v" and "v < 2 ^ 31"
  shows "sint (stored_int v) = v"
proof -
  from assms have "max (- (2 ^ 63)) (min (2 ^ 63 - 1) v) = v"
    by simp
  moreover have "signed_take_bit (LENGTH(32) - 1) v = v"
    using assms by (intro signed_take_bit_int_eq_self) simp_all
  ultimately show ?thesis
    by (simp only: stored_int_def sint_sbintrunc')
qed

lemma stored_int_saturates:
  "v \<le> - (2 ^ 63) \<Longrightarrow> stored_int v = 0"
  "2 ^ 63 \<le> v \<Longrightarrow> stored_int v = - 1"
  by (simp_all add: stored_int_def)

lemma sscanf_alarm_short:
  assumes "length line \<le> 1"
  shows "fst (sscanf_alarm line node) < 2"
proof (cases line)
  case Nil
  then show ?thesis by (simp add: sscanf_alarm_def)
next
  case (Cons c cs)
  with assms have line: "line = [c]" by simp
  show ?thesis
    by (simp add: line sscanf_alarm_def scan_d_def scan_set64_def Let_def
             split: option.splits prod.splits)
qed

lemma sscanf_alarm_spaces:
  assumes "\<forall>c \<in> set line. isspace c"
  shows "sscanf_alarm line node = (- 1, node, [])"
proof -
  from assms have "dropWhile isspace line = []" by simp
  then show ?thesis by (simp add: sscanf_alarm_def)
qed

text \<open>Nothing is stored at \<open>alarm->message\<close> unless both conversions succeed.\<close>

lemma sscanf_alarm_unparsed_past:
  assumes "sscanf_alarm line node = (n, alarm, past)" and "n < 2"
  shows "past = []"
  using assms
  by (auto simp: sscanf_alarm_def Let_def split: if_splits option.splits prod.splits)

text \<open>
  When both succeed, the message has at most \<open>message_size\<close> characters, and a NUL is
  stored past the end of the array exactly when it has that many.
\<close>

lemma sscanf_alarm_parsed_past:
  assumes "sscanf_alarm line node = (2, alarm, past)"
  shows "length (message alarm) \<le> message_size
         \<and> past = (if length (message alarm) < message_size then [] else [CHR 0x00])"
  using assms
  by (auto simp: sscanf_alarm_def scan_set64_def message_size_def Let_def min_def
           split: if_splits option.splits prod.splits)

lemma main_iter_not_parsed:
  assumes "fst (sscanf_alarm line node) < 2"
  shows "main_iter (Some line) (Some node) lock_status unlock_status t alarm_list
         = (if length line \<le> 1 then [Stdout ''alarm> '']
            else [Stdout ''alarm> '', Stderr (''bad command'' @ [newline])],
            Inr alarm_list)"
proof -
  obtain n alarm past where r: "sscanf_alarm line node = (n, alarm, past)"
    by (cases "sscanf_alarm line node") auto
  with assms have "n < 2" by simp
  with r have "past = []" by (rule sscanf_alarm_unparsed_past)
  with r \<open>n < 2\<close> show ?thesis
    by (simp add: main_iter_def past_message_def)
qed

lemma main_iter_parsed:
  assumes "sscanf_alarm line node = (2, alarm, past)"
  shows "main_iter (Some line) (Some node) 0 unlock_status t alarm_list
         = ([Stdout ''alarm> ''] @ past_message past,
            Inr (insert_alarm (alarm\<lparr>time := t + scast (seconds alarm)\<rparr>) alarm_list))"
proof -
  have "\<not> length line \<le> 1"
    using sscanf_alarm_short [of line node] assms by auto
  with assms show ?thesis
    by (simp add: main_iter_def)
qed

lemma main_lock_checked:
  assumes "sscanf_alarm line node = (2, alarm, past)" and "lock_status \<noteq> 0"
  shows "main_iter (Some line) (Some node) lock_status unlock_status t alarm_list
         = ([Stdout ''alarm> ''] @ past_message past,
            Inl (Err_abort lock_status ''failed to lock mutex''))"
proof -
  have "\<not> length line \<le> 1"
    using sscanf_alarm_short [of line node] assms(1) by auto
  with assms show ?thesis
    by (simp add: main_iter_def)
qed

text \<open>
  What line 118 stores for a line that holds a number and a text after it: the first 64
  characters of the text, and a NUL past the end of the array when the text has 64
  characters or more.
\<close>

lemma sscanf_alarm_message:
  assumes "scan_d (dropWhile isspace line) = Some (v, rest)"
      and "takeWhile (\<lambda>c. c \<noteq> newline) (dropWhile isspace rest) \<noteq> []"
  shows "sscanf_alarm line node
         = (2,
            \<lparr>seconds = stored_int v, time = time node,
             message = take 64 (takeWhile (\<lambda>c. c \<noteq> newline) (dropWhile isspace rest))\<rparr>,
            if length (takeWhile (\<lambda>c. c \<noteq> newline) (dropWhile isspace rest)) < 64
            then [] else [CHR 0x00])"
proof -
  have "dropWhile isspace line \<noteq> []"
  proof
    assume "dropWhile isspace line = []"
    with assms(1) have "scan_d [] = Some (v, rest)" by (simp only:)
    then show False by (simp add: scan_d_Nil)
  qed
  with assms show ?thesis
    by (cases node) (simp add: sscanf_alarm_def scan_set64_def message_size_def min_def)
qed

lemma main_iter_full_message:
  assumes "scan_d (dropWhile isspace line) = Some (v, rest)"
      and "64 \<le> length (takeWhile (\<lambda>c. c \<noteq> newline) (dropWhile isspace rest))"
  shows "main_iter (Some line) (Some node) 0 unlock_status t alarm_list
         = ([Stdout ''alarm> '', Write_past_message [CHR 0x00]],
            Inr (insert_alarm
                   \<lparr>seconds = stored_int v, time = t + scast (stored_int v),
                    message = take 64 (takeWhile (\<lambda>c. c \<noteq> newline) (dropWhile isspace rest))\<rparr>
                   alarm_list))"
proof -
  from assms(2) have "takeWhile (\<lambda>c. c \<noteq> newline) (dropWhile isspace rest) \<noteq> []"
    by auto
  with assms(1) have "sscanf_alarm line node
         = (2,
            \<lparr>seconds = stored_int v, time = time node,
             message = take 64 (takeWhile (\<lambda>c. c \<noteq> newline) (dropWhile isspace rest))\<rparr>,
            if length (takeWhile (\<lambda>c. c \<noteq> newline) (dropWhile isspace rest)) < 64
            then [] else [CHR 0x00])"
    by (rule sscanf_alarm_message)
  with assms(2) show ?thesis
    by (simp add: main_iter_parsed past_message_def)
qed

lemma main_iter_short_message:
  assumes "scan_d (dropWhile isspace line) = Some (v, rest)"
      and "takeWhile (\<lambda>c. c \<noteq> newline) (dropWhile isspace rest) \<noteq> []"
      and "length (takeWhile (\<lambda>c. c \<noteq> newline) (dropWhile isspace rest)) < 64"
  shows "main_iter (Some line) (Some node) 0 unlock_status t alarm_list
         = ([Stdout ''alarm> ''],
            Inr (insert_alarm
                   \<lparr>seconds = stored_int v, time = t + scast (stored_int v),
                    message = takeWhile (\<lambda>c. c \<noteq> newline) (dropWhile isspace rest)\<rparr>
                   alarm_list))"
proof -
  from assms(1,2) have "sscanf_alarm line node
         = (2,
            \<lparr>seconds = stored_int v, time = time node,
             message = take 64 (takeWhile (\<lambda>c. c \<noteq> newline) (dropWhile isspace rest))\<rparr>,
            if length (takeWhile (\<lambda>c. c \<noteq> newline) (dropWhile isspace rest)) < 64
            then [] else [CHR 0x00])"
    by (rule sscanf_alarm_message)
  with assms(3) show ?thesis
    by (simp add: main_iter_parsed past_message_def)
qed

text \<open>An iteration of the main thread leaves an ordered list ordered.\<close>

lemma main_iter_ordered:
  assumes "ordered alarm_list"
      and "main_iter fgets_result malloc_result lock_status unlock_status t alarm_list
           = (out, Inr alarm_list')"
  shows "ordered alarm_list'"
  using assms
  by (auto simp: main_iter_def ordered_insert_alarm
           split: option.splits if_splits prod.splits)

section \<open>Claims about the insertion\<close>

text \<open>
  Claim C3. If the list is ordered by expiration time, then after the main thread has
  inserted a new alarm the list is ordered again, and it holds exactly the alarms it held
  before and the new one, each as often as before: none is lost, none is doubled.
\<close>

theorem insert_alarm_ordered_mset:
  assumes "ordered alarm_list"
  shows "ordered (insert_alarm alarm alarm_list)
         \<and> mset (insert_alarm alarm alarm_list) = add_mset alarm (mset alarm_list)"
  using assms by (simp add: ordered_insert_alarm mset_insert_alarm)

theorem insert_alarm_ordered_mset_witness:
  "ordered [\<lparr>seconds = 3, time = 103, message = ''a''\<rparr>,
            \<lparr>seconds = 7, time = 107, message = ''b''\<rparr>]
   \<and> insert_alarm \<lparr>seconds = 4, time = 105, message = ''c''\<rparr>
        [\<lparr>seconds = 3, time = 103, message = ''a''\<rparr>,
         \<lparr>seconds = 7, time = 107, message = ''b''\<rparr>]
       = [\<lparr>seconds = 3, time = 103, message = ''a''\<rparr>,
          \<lparr>seconds = 4, time = 105, message = ''c''\<rparr>,
          \<lparr>seconds = 7, time = 107, message = ''b''\<rparr>]
   \<and> ordered (insert_alarm \<lparr>seconds = 4, time = 105, message = ''c''\<rparr>
        [\<lparr>seconds = 3, time = 103, message = ''a''\<rparr>,
         \<lparr>seconds = 7, time = 107, message = ''b''\<rparr>])
   \<and> mset (insert_alarm \<lparr>seconds = 4, time = 105, message = ''c''\<rparr>
        [\<lparr>seconds = 3, time = 103, message = ''a''\<rparr>,
         \<lparr>seconds = 7, time = 107, message = ''b''\<rparr>])
       = {#\<lparr>seconds = 4, time = 105, message = ''c''\<rparr>,
           \<lparr>seconds = 3, time = 103, message = ''a''\<rparr>,
           \<lparr>seconds = 7, time = 107, message = ''b''\<rparr>#}"
proof -
  have h: "ordered [\<lparr>seconds = 3, time = 103, message = ''a''\<rparr>,
                    \<lparr>seconds = 7, time = 107, message = ''b''\<rparr>]"
    by (simp add: ordered_def)
  have e: "insert_alarm \<lparr>seconds = 4, time = 105, message = ''c''\<rparr>
        [\<lparr>seconds = 3, time = 103, message = ''a''\<rparr>,
         \<lparr>seconds = 7, time = 107, message = ''b''\<rparr>]
       = [\<lparr>seconds = 3, time = 103, message = ''a''\<rparr>,
          \<lparr>seconds = 4, time = 105, message = ''c''\<rparr>,
          \<lparr>seconds = 7, time = 107, message = ''b''\<rparr>]"
    by (simp add: insert_alarm_def word_sle_eq)
  show ?thesis
    using h e insert_alarm_ordered_mset [OF h, of "\<lparr>seconds = 4, time = 105, message = ''c''\<rparr>"]
    by simp
qed

text \<open>
  Claim C2, as the code has it. The new alarm is linked immediately before the first
  alarm of the list whose expiration time is not earlier than its own, and at the end
  when there is none: every alarm before it is strictly earlier, the alarm after it (if
  any) is not earlier. So no alarm with the same expiration time stands before the new
  one: among alarms of equal expiration time the new one comes first.
\<close>

theorem insert_alarm_before_first_not_earlier:
  "insert_alarm alarm alarm_list =
     takeWhile (\<lambda>x. time x <s time alarm) alarm_list
       @ alarm # dropWhile (\<lambda>x. time x <s time alarm) alarm_list
   \<and> (\<forall>x \<in> set (takeWhile (\<lambda>x. time x <s time alarm) alarm_list).
         time x <s time alarm \<and> time x \<noteq> time alarm)
   \<and> (case dropWhile (\<lambda>x. time x <s time alarm) alarm_list of
         [] \<Rightarrow> True
       | next # link \<Rightarrow> time alarm \<le>s time next)"
proof (intro conjI)
  show "insert_alarm alarm alarm_list =
     takeWhile (\<lambda>x. time x <s time alarm) alarm_list
       @ alarm # dropWhile (\<lambda>x. time x <s time alarm) alarm_list"
    by (rule insert_alarm_split)
  show "\<forall>x \<in> set (takeWhile (\<lambda>x. time x <s time alarm) alarm_list).
         time x <s time alarm \<and> time x \<noteq> time alarm"
    by (auto dest: set_takeWhileD)
  show "case dropWhile (\<lambda>x. time x <s time alarm) alarm_list of
         [] \<Rightarrow> True
       | next # link \<Rightarrow> time alarm \<le>s time next"
  proof (cases "dropWhile (\<lambda>x. time x <s time alarm) alarm_list")
    case Nil
    then show ?thesis by (simp only: list.case)
  next
    case (Cons n ns)
    then have "\<not> time n <s time alarm"
      using hd_dropWhile [of "\<lambda>x. time x <s time alarm" alarm_list] by auto
    with Cons show ?thesis
      by (simp add: word_sless_alt word_sle_eq)
  qed
qed

theorem insert_alarm_before_first_not_earlier_witness:
  "insert_alarm \<lparr>seconds = 4, time = 105, message = ''new''\<rparr>
     [\<lparr>seconds = 3, time = 103, message = ''a''\<rparr>,
      \<lparr>seconds = 5, time = 105, message = ''b''\<rparr>,
      \<lparr>seconds = 7, time = 107, message = ''c''\<rparr>]
   = [\<lparr>seconds = 3, time = 103, message = ''a''\<rparr>,
      \<lparr>seconds = 4, time = 105, message = ''new''\<rparr>,
      \<lparr>seconds = 5, time = 105, message = ''b''\<rparr>,
      \<lparr>seconds = 7, time = 107, message = ''c''\<rparr>]"
  using insert_alarm_before_first_not_earlier
          [of "\<lparr>seconds = 4, time = 105, message = ''new''\<rparr>"
              "[\<lparr>seconds = 3, time = 103, message = ''a''\<rparr>,
                \<lparr>seconds = 5, time = 105, message = ''b''\<rparr>,
                \<lparr>seconds = 7, time = 107, message = ''c''\<rparr>]"]
  by (simp add: word_sless_alt)

text \<open>
  Claim C2 as it is written says that a new alarm lands after the alarms with the same
  expiration time. Inserted into a list that holds one alarm with the same expiration
  time, the new alarm becomes the first of the list.
\<close>

theorem insert_alarm_equal_time_lands_first:
  "time \<lparr>seconds = 5, time = 105, message = ''old''\<rparr>
     = time \<lparr>seconds = 4, time = 105, message = ''new''\<rparr>
   \<and> insert_alarm \<lparr>seconds = 4, time = 105, message = ''new''\<rparr>
        [\<lparr>seconds = 5, time = 105, message = ''old''\<rparr>]
      = [\<lparr>seconds = 4, time = 105, message = ''new''\<rparr>,
         \<lparr>seconds = 5, time = 105, message = ''old''\<rparr>]
   \<and> insert_alarm \<lparr>seconds = 4, time = 105, message = ''new''\<rparr>
        [\<lparr>seconds = 5, time = 105, message = ''old''\<rparr>]
      \<noteq> [\<lparr>seconds = 5, time = 105, message = ''old''\<rparr>,
         \<lparr>seconds = 4, time = 105, message = ''new''\<rparr>]"
  by (simp add: insert_alarm_def)

section \<open>Claims about the alarm thread\<close>

text \<open>
  Claim C4. Whenever the list is not empty, the alarm thread unlinks its first alarm under
  the lock, whatever the clock says (due or not), and keeps it in \<open>alarm\<close>: the list
  that remains is the rest, and the iteration ends by printing and freeing that alarm.
  When the list is ordered, the alarm taken is one with the earliest expiration time of
  the list, and the rest is ordered.
\<close>

theorem alarm_thread_removes_first:
  "alarm_thread_locked t vars (alarm # link)
     = (Some alarm,
        vars\<lparr>sleep_time := (if time alarm \<le>s t then 0 else ucast (t - time alarm))\<rparr>,
        link)
   \<and> (\<exists>wait vars'.
         alarm_thread_iter 0 0 t vars (alarm # link)
           = Inr (wait # [Printf, Free alarm], vars', link))
   \<and> (ordered (alarm # link) \<longrightarrow> (\<forall>x \<in> set link. time alarm \<le>s time x) \<and> ordered link)"
  by (simp add: alarm_thread_locked_def alarm_thread_iter_def alarm_thread_unlocked_def
                ordered_Cons)

theorem alarm_thread_removes_first_witness:
  "ordered [\<lparr>seconds = 3, time = 103, message = ''a''\<rparr>,
            \<lparr>seconds = 7, time = 107, message = ''b''\<rparr>]
   \<and> alarm_thread_iter 0 0 100 \<lparr>sleep_time = 0, sleet_time = 0\<rparr>
        [\<lparr>seconds = 3, time = 103, message = ''a''\<rparr>,
         \<lparr>seconds = 7, time = 107, message = ''b''\<rparr>]
      = Inr ([Sched_yield, Printf, Free \<lparr>seconds = 3, time = 103, message = ''a''\<rparr>],
             \<lparr>sleep_time = - 3, sleet_time = 0\<rparr>,
             [\<lparr>seconds = 7, time = 107, message = ''b''\<rparr>])
   \<and> time \<lparr>seconds = 3, time = 103, message = ''a''\<rparr>
        \<le>s time \<lparr>seconds = 7, time = 107, message = ''b''\<rparr>"
  using alarm_thread_removes_first
          [of 100 "\<lparr>sleep_time = 0, sleet_time = 0\<rparr>"
              "\<lparr>seconds = 3, time = 103, message = ''a''\<rparr>"
              "[\<lparr>seconds = 7, time = 107, message = ''b''\<rparr>]"]
  by (simp add: ordered_def alarm_thread_iter_def alarm_thread_locked_def
                alarm_thread_unlocked_def word_sless_alt word_sle_eq)

text \<open>
  Claim C1 says that the wait computed for the alarm taken from the list is
  \<open>max (0, alarm->time - now)\<close>, so 5 for an alarm that expires at 105 when the
  clock reads 100. Line 62 subtracts the other way round (\<open>now - alarm->time\<close>): the
  wait stored is \<open>-5\<close>, line 74 finds it not positive, and the thread yields and prints
  the alarm at once instead of sleeping for 5 seconds. (\<open>alarm_thread_iter_not_due\<close>
  shows the same for every alarm that is not yet due.)
\<close>

theorem alarm_thread_wait_of_later_alarm:
  "alarm_thread_locked 100 \<lparr>sleep_time = 0, sleet_time = 0\<rparr>
     [\<lparr>seconds = 5, time = 105, message = ''m''\<rparr>]
   = (Some \<lparr>seconds = 5, time = 105, message = ''m''\<rparr>,
      \<lparr>sleep_time = - 5, sleet_time = 0\<rparr>, [])
   \<and> alarm_thread_iter 0 0 100 \<lparr>sleep_time = 0, sleet_time = 0\<rparr>
        [\<lparr>seconds = 5, time = 105, message = ''m''\<rparr>]
     = Inr ([Sched_yield, Printf, Free \<lparr>seconds = 5, time = 105, message = ''m''\<rparr>],
            \<lparr>sleep_time = - 5, sleet_time = 0\<rparr>, [])"
  by (simp add: alarm_thread_iter_def alarm_thread_locked_def alarm_thread_unlocked_def
                word_sless_alt word_sle_eq)

text \<open>
  Claim C6 says that the thread sleeps for 1 second whenever it finds the list empty. Line
  54 stores the 1 in \<open>sleet_time\<close>; \<open>sleep_time\<close>, which line 74 tests, keeps the
  value of the iteration before. Here the first iteration removes an alarm that is due
  and leaves \<open>sleep_time = 0\<close>; the second one finds the list empty and calls
  \<open>sched_yield\<close>, without any sleep. (\<open>alarm_thread_iter_empty\<close> gives what the
  iteration does on the empty list for every value of \<open>sleep_time\<close>.)
\<close>

theorem alarm_thread_empty_list_after_due_alarm:
  "alarm_thread_iter 0 0 110 \<lparr>sleep_time = 9, sleet_time = 0\<rparr>
     [\<lparr>seconds = 5, time = 105, message = ''m''\<rparr>]
   = Inr ([Sched_yield, Printf, Free \<lparr>seconds = 5, time = 105, message = ''m''\<rparr>],
          \<lparr>sleep_time = 0, sleet_time = 0\<rparr>, [])
   \<and> alarm_thread_iter 0 0 110 \<lparr>sleep_time = 0, sleet_time = 0\<rparr> []
     = Inr ([Sched_yield], \<lparr>sleep_time = 0, sleet_time = 1\<rparr>, [])"
  by (simp add: alarm_thread_iter_def alarm_thread_locked_def alarm_thread_unlocked_def
                word_sless_alt word_sle_eq)

section \<open>Claims about the main thread\<close>

text \<open>
  Claim C5 says that every call that locks or unlocks the mutex has its result checked.
  The alarm thread checks both of its calls (\<open>alarm_thread_lock_checked\<close>,
  \<open>alarm_thread_unlock_checked\<close>) and the main thread checks its lock
  (\<open>main_lock_checked\<close>), but line 153 drops the result of
  \<open>pthread_mutex_unlock\<close>: when it returns 1, the main thread goes on to its next
  iteration with the new list.
\<close>

theorem main_goes_on_after_failed_unlock:
  "main_iter (Some (''1 a'' @ [newline]))
     (Some \<lparr>seconds = 0, time = 0, message = []\<rparr>) 0 1 100 []
   = ([Stdout ''alarm> ''], Inr [\<lparr>seconds = 1, time = 101, message = ''a''\<rparr>])"
  by (simp add: main_iter_def sscanf_alarm_def scan_d_def scan_set64_def stored_int_def
                past_message_def message_size_def isspace_def isdigit_def decimal_def
                newline_def insert_alarm_def)

text \<open>
  Claim C7, as the code has it. When \<open>sscanf\<close> assigns fewer than two items, the main
  thread leaves the list as it is, whatever the mutex and the clock would give. It prints
  \<open>bad command\<close> on the standard error stream when the line is longer than one
  character; a line of at most one character has been skipped at line 107, before any
  parsing, and nothing is printed for it but the prompt.
\<close>

theorem main_reports_unparsed_line:
  assumes "fst (sscanf_alarm line node) < 2"
  shows "main_iter (Some line) (Some node) lock_status unlock_status t alarm_list
         = (if length line \<le> 1 then [Stdout ''alarm> '']
            else [Stdout ''alarm> '', Stderr (''bad command'' @ [newline])],
            Inr alarm_list)"
  using assms by (rule main_iter_not_parsed)

theorem main_reports_unparsed_line_witness:
  "fst (sscanf_alarm (''abc'' @ [newline]) \<lparr>seconds = 0, time = 0, message = []\<rparr>) < 2
   \<and> main_iter (Some (''abc'' @ [newline])) (Some \<lparr>seconds = 0, time = 0, message = []\<rparr>)
         0 0 100 [\<lparr>seconds = 7, time = 107, message = ''b''\<rparr>]
       = ([Stdout ''alarm> '', Stderr (''bad command'' @ [newline])],
          Inr [\<lparr>seconds = 7, time = 107, message = ''b''\<rparr>])"
proof -
  have h: "fst (sscanf_alarm (''abc'' @ [newline]) \<lparr>seconds = 0, time = 0, message = []\<rparr>) < 2"
    by (simp add: sscanf_alarm_def scan_d_def isspace_def isdigit_def newline_def)
  show ?thesis
    using h main_reports_unparsed_line [OF h, of 0 0 100 "[\<lparr>seconds = 7, time = 107, message = ''b''\<rparr>]"]
    by simp
qed

text \<open>
  Claim C7 as it is written says that every line that does not parse is reported. The
  line \<open>x\<close> (input that ends without a newline) does not parse, and the main thread
  skips it without a message; so it does the empty line, a single newline.
\<close>

theorem main_skips_one_character_silently:
  "fst (sscanf_alarm ''x'' \<lparr>seconds = 0, time = 0, message = []\<rparr>) < 2
   \<and> main_iter (Some ''x'') (Some \<lparr>seconds = 0, time = 0, message = []\<rparr>) 0 0 100 []
       = ([Stdout ''alarm> ''], Inr [])
   \<and> fst (sscanf_alarm [newline] \<lparr>seconds = 0, time = 0, message = []\<rparr>) < 2
   \<and> main_iter (Some [newline]) (Some \<lparr>seconds = 0, time = 0, message = []\<rparr>) 0 0 100 []
       = ([Stdout ''alarm> ''], Inr [])"
  by (simp add: main_iter_def sscanf_alarm_def scan_d_def isspace_def isdigit_def newline_def)

text \<open>
  Claim C9, as the code has it. For a line made of white space only, the list is left as
  it is and no alarm is created. The line is skipped silently when it has at most one
  character (the empty line, a single newline); a longer line of white space is handed
  to \<open>sscanf\<close>, which assigns nothing, and \<open>bad command\<close> is printed.
\<close>

theorem main_blank_line:
  assumes "\<forall>c \<in> set line. isspace c"
  shows "main_iter (Some line) (Some node) lock_status unlock_status t alarm_list
         = (if length line \<le> 1 then [Stdout ''alarm> '']
            else [Stdout ''alarm> '', Stderr (''bad command'' @ [newline])],
            Inr alarm_list)"
proof -
  have "fst (sscanf_alarm line node) < 2"
    using assms by (simp add: sscanf_alarm_spaces)
  then show ?thesis by (rule main_iter_not_parsed)
qed

theorem main_blank_line_witness:
  "isspace newline
   \<and> main_iter (Some [newline]) (Some \<lparr>seconds = 0, time = 0, message = []\<rparr>)
         0 0 100 [\<lparr>seconds = 7, time = 107, message = ''b''\<rparr>]
       = ([Stdout ''alarm> ''], Inr [\<lparr>seconds = 7, time = 107, message = ''b''\<rparr>])"
proof -
  have h: "\<forall>c \<in> set [newline]. isspace c"
    by (simp add: isspace_def newline_def)
  show ?thesis
    using h main_blank_line [OF h, of "\<lparr>seconds = 0, time = 0, message = []\<rparr>" 0 0 100
                                "[\<lparr>seconds = 7, time = 107, message = ''b''\<rparr>]"]
    by simp
qed

text \<open>
  Claim C9 as it is written says that no error is reported for a line of white space. For
  the line of two spaces and a newline the main thread prints \<open>bad command\<close>.
\<close>

theorem main_reports_white_space_line:
  "isspace CHR '' '' \<and> isspace newline
   \<and> main_iter (Some (''  '' @ [newline])) (Some \<lparr>seconds = 0, time = 0, message = []\<rparr>)
         0 0 100 []
       = ([Stdout ''alarm> '', Stderr (''bad command'' @ [newline])], Inr [])"
  by (simp add: main_iter_def sscanf_alarm_def past_message_def isspace_def newline_def)

text \<open>
  Claim C8 says that a message longer than the bound is cut to the bound and that nothing
  goes beyond the bound that is declared. The array is \<open>char message[64]\<close> (line 28)
  and the conversion is \<open>%64[^\n]\<close> (line 118): for a text of 70 characters the first
  64 are stored in the array, which they fill, and the terminating NUL is stored at
  \<open>message[64]\<close>, one byte past the end of the array and of the node.
  (\<open>main_iter_full_message\<close> shows the same for every text of 64 characters or more,
  \<open>main_iter_short_message\<close> that a shorter text is stored whole, inside the array.)
\<close>

theorem main_stores_nul_past_message:
  "main_iter
     (Some (''1 abcdefghijabcdefghijabcdefghijabcdefghijabcdefghijabcdefghijabcdefghij''
            @ [newline]))
     (Some \<lparr>seconds = 0, time = 0, message = []\<rparr>) 0 0 100 []
   = ([Stdout ''alarm> '', Write_past_message [CHR 0x00]],
      Inr [\<lparr>seconds = 1, time = 101,
            message = ''abcdefghijabcdefghijabcdefghijabcdefghijabcdefghijabcdefghijabcd''\<rparr>])
   \<and> length ''abcdefghijabcdefghijabcdefghijabcdefghijabcdefghijabcdefghijabcd''
       = message_size"
  by (simp add: main_iter_def sscanf_alarm_def scan_d_def scan_set64_def stored_int_def
                past_message_def message_size_def isspace_def isdigit_def decimal_def
                newline_def insert_alarm_def)

text \<open>
  Claim C10. When the line parses and the number stored in \<open>alarm->seconds\<close> is
  negative, the main thread prints no error and checks nothing: it links the alarm into
  the list, before the first alarm that does not expire earlier. Provided that the
  addition of line 129 does not overflow, its expiration time is the clock plus the
  (negative) number, so earlier than the clock; and whenever the alarm thread finds this
  alarm first in the list, with a clock that has not gone back, the wait it computes is
  0: it yields, prints the alarm and frees it. (By \<open>stored_int_in_range\<close> the number
  stored is the number written on the line when that fits an \<open>int\<close>.)
\<close>

theorem main_accepts_negative_seconds:
  assumes "sscanf_alarm line node = (2, alarm, past)"
      and "seconds alarm <s 0"
      and "- (2 ^ 63) \<le> sint t + sint (seconds alarm)"
  shows "main_iter (Some line) (Some node) 0 unlock_status t alarm_list
         = ([Stdout ''alarm> '']
              @ (if length (message alarm) < message_size then []
                 else [Write_past_message [CHR 0x00]]),
            Inr (takeWhile (\<lambda>x. time x <s t + scast (seconds alarm)) alarm_list
                 @ alarm\<lparr>time := t + scast (seconds alarm)\<rparr>
                 # dropWhile (\<lambda>x. time x <s t + scast (seconds alarm)) alarm_list))
         \<and> sint (t + scast (seconds alarm) :: time_t) = sint t + sint (seconds alarm)
         \<and> t + scast (seconds alarm) <s t
         \<and> (\<forall>t'. t \<le>s t' \<longrightarrow>
               alarm_thread_iter 0 0 t' vars (alarm\<lparr>time := t + scast (seconds alarm)\<rparr> # link)
               = Inr ([Sched_yield, Printf, Free (alarm\<lparr>time := t + scast (seconds alarm)\<rparr>)],
                      vars\<lparr>sleep_time := 0\<rparr>, link))"
proof -
  have neg: "sint (seconds alarm) < 0"
    using assms(2) by (simp add: word_sless_alt)
  have "sint t < 2 ^ 63"
    using sint_lt [of t] by simp
  with neg have "sint t + sint (seconds alarm) < 2 ^ 63"
    by linarith
  with assms(3) have val: "sint (t + scast (seconds alarm) :: time_t) = sint t + sint (seconds alarm)"
    by (rule sint_expiration)
  with neg have past: "t + scast (seconds alarm) <s t"
    by (simp add: word_sless_alt)
  have fire: "alarm_thread_iter 0 0 t' vars (alarm\<lparr>time := t + scast (seconds alarm)\<rparr> # link)
               = Inr ([Sched_yield, Printf, Free (alarm\<lparr>time := t + scast (seconds alarm)\<rparr>)],
                      vars\<lparr>sleep_time := 0\<rparr>, link)" if "t \<le>s t'" for t'
  proof -
    from that past have "t + scast (seconds alarm) \<le>s t'"
      by (simp add: word_sless_alt word_sle_eq)
    then show ?thesis
      by (simp add: alarm_thread_iter_def alarm_thread_locked_def alarm_thread_unlocked_def)
  qed
  have effects: "past_message past
                 = (if length (message alarm) < message_size then []
                    else [Write_past_message [CHR 0x00]])"
    using sscanf_alarm_parsed_past [OF assms(1)] by (simp add: past_message_def)
  have "main_iter (Some line) (Some node) 0 unlock_status t alarm_list
         = ([Stdout ''alarm> ''] @ past_message past,
            Inr (insert_alarm (alarm\<lparr>time := t + scast (seconds alarm)\<rparr>) alarm_list))"
    using assms(1) by (rule main_iter_parsed)
  with effects val past fire show ?thesis
    by (simp add: insert_alarm_split)
qed

theorem main_accepts_negative_seconds_witness:
  "main_iter (Some (''-5 hi'' @ [newline])) (Some \<lparr>seconds = 0, time = 0, message = []\<rparr>)
     0 0 100
     [\<lparr>seconds = 2, time = 90, message = ''a''\<rparr>, \<lparr>seconds = 7, time = 107, message = ''b''\<rparr>]
   = ([Stdout ''alarm> ''],
      Inr [\<lparr>seconds = 2, time = 90, message = ''a''\<rparr>,
           \<lparr>seconds = - 5, time = 95, message = ''hi''\<rparr>,
           \<lparr>seconds = 7, time = 107, message = ''b''\<rparr>])
   \<and> alarm_thread_iter 0 0 100 \<lparr>sleep_time = 9, sleet_time = 0\<rparr>
        [\<lparr>seconds = - 5, time = 95, message = ''hi''\<rparr>,
         \<lparr>seconds = 7, time = 107, message = ''b''\<rparr>]
     = Inr ([Sched_yield, Printf, Free \<lparr>seconds = - 5, time = 95, message = ''hi''\<rparr>],
            \<lparr>sleep_time = 0, sleet_time = 0\<rparr>,
            [\<lparr>seconds = 7, time = 107, message = ''b''\<rparr>])"
proof -
  have h1: "sscanf_alarm (''-5 hi'' @ [newline]) \<lparr>seconds = 0, time = 0, message = []\<rparr>
            = (2, \<lparr>seconds = - 5, time = 0, message = ''hi''\<rparr>, [])"
    by (simp add: sscanf_alarm_def scan_d_def scan_set64_def stored_int_def message_size_def
                  isspace_def isdigit_def decimal_def newline_def)
  have h2: "seconds \<lparr>seconds = - 5, time = 0, message = ''hi''\<rparr> <s 0"
    by (simp add: word_sless_alt)
  have h3: "- (2 ^ 63) \<le> sint (100 :: time_t)
              + sint (seconds \<lparr>seconds = - 5, time = 0, message = ''hi''\<rparr>)"
    by simp
  note c = main_accepts_negative_seconds
             [OF h1 h2 h3, of 0
                "[\<lparr>seconds = 2, time = 90, message = ''a''\<rparr>,
                  \<lparr>seconds = 7, time = 107, message = ''b''\<rparr>]"
                "\<lparr>sleep_time = 9, sleet_time = 0\<rparr>"
                "[\<lparr>seconds = 7, time = 107, message = ''b''\<rparr>]"]
  from c have "main_iter (Some (''-5 hi'' @ [newline]))
                 (Some \<lparr>seconds = 0, time = 0, message = []\<rparr>) 0 0 100
                 [\<lparr>seconds = 2, time = 90, message = ''a''\<rparr>,
                  \<lparr>seconds = 7, time = 107, message = ''b''\<rparr>]
               = ([Stdout ''alarm> ''],
                  Inr [\<lparr>seconds = 2, time = 90, message = ''a''\<rparr>,
                       \<lparr>seconds = - 5, time = 95, message = ''hi''\<rparr>,
                       \<lparr>seconds = 7, time = 107, message = ''b''\<rparr>])"
    by (simp add: message_size_def word_sless_alt)
  moreover from c have "(100 :: time_t) \<le>s 100 \<longrightarrow>
      alarm_thread_iter 0 0 100 \<lparr>sleep_time = 9, sleet_time = 0\<rparr>
        (\<lparr>seconds = - 5, time = 0, message = ''hi''\<rparr>
           \<lparr>time := 100 + scast (seconds \<lparr>seconds = - 5, time = 0, message = ''hi''\<rparr>)\<rparr>
         # [\<lparr>seconds = 7, time = 107, message = ''b''\<rparr>])
      = Inr ([Sched_yield, Printf,
              Free (\<lparr>seconds = - 5, time = 0, message = ''hi''\<rparr>
                \<lparr>time := 100 + scast (seconds \<lparr>seconds = - 5, time = 0, message = ''hi''\<rparr>)\<rparr>)],
             \<lparr>sleep_time = 9, sleet_time = 0\<rparr>\<lparr>sleep_time := 0\<rparr>,
             [\<lparr>seconds = 7, time = 107, message = ''b''\<rparr>])"
    by blast
  ultimately show ?thesis
    by simp
qed

end
